theory Spec2Isabelle
  imports Main "HOL-Library.Word"
begin

section \<open>The drop/select controller of \<open>src/web/main.jsx\<close>\<close>

text \<open>
  The module wires three handlers (\<open>ondragover\<close>, \<open>ondragleave\<close>, \<open>ondrop\<close>) and a
  file chooser to one asynchronous function, \<open>process\<close>. Its state is the class list of
  the drop-signal element, the page location and the browser's registry of object URLs.
  The functions below follow the source statement by statement; state is passed
  explicitly and every JavaScript exception is a value.
\<close>

subsection \<open>Data\<close>

type_synonym bytes = "8 word list"

text \<open>
  A DOM \<open>File\<close>: its byte contents, its name and its MIME type (the three arguments of
  \<open>new File([svg], "flamegraph.svg", { type: "image/svg+xml" })\<close>). The DOM calls the
  last property \<open>type\<close>; the field is \<open>ftype\<close> here, since \<open>type\<close> names the property
  of a dragged item below.
\<close>

record File =
  bits :: bytes
  name :: string
  ftype :: string

text \<open>A \<open>DataTransferItem\<close>: the two properties that \<open>isValidWasmDrop\<close> reads.\<close>

record DataTransferItem =
  kind :: string
  type :: string

text \<open>
  A \<open>DataTransfer\<close>: the list of dragged items (metadata only) and the list of dropped
  files (names and contents). The source reads \<open>dt.items\<close> in \<open>isValidWasmDrop\<close> and
  \<open>ev.dataTransfer.files\<close> in \<open>ondrop\<close>.
\<close>

record DataTransfer =
  items :: "DataTransferItem list"
  files :: "File list"

record DragEvent =
  dataTransfer :: DataTransfer
  defaultPrevented :: bool

text \<open>
  The table \<open>styles\<close> imported from \<open>./styles.module.css\<close> is resolved at build time
  and is not part of the source file; it is a parameter of every function that uses it.
\<close>

record styles =
  dropSignal :: string
  dropValid :: string
  dropInvalid :: string
  fileSelect :: string

datatype error = TypeError | RenderError string

text \<open>
  JavaScript indexing: \<open>xs[i]\<close> is \<open>undefined\<close> (here \<open>None\<close>) out of range and never
  throws by itself; reading a property of \<open>undefined\<close> throws a \<open>TypeError\<close>.
\<close>

definition index :: "'a list \<Rightarrow> nat \<Rightarrow> 'a option" where
  "index xs i = (if i < length xs then Some (xs ! i) else None)"

subsection \<open>The validation predicate\<close>

text \<open>
  \<^verbatim>\<open>
  function isValidWasmDrop(dt) {
    if (dt.items.length != 1) return null;
    const item = dt.items[0];
    if (item.kind != "file") return null;
    if (item.type != "application/wasm") return null;
    return item;
  }
  \<close>
  The result is \<open>Inr None\<close> for \<open>null\<close>, \<open>Inr (Some item)\<close> for the item, and
  \<open>Inl TypeError\<close> where \<open>item.kind\<close> would be read from \<open>undefined\<close>.
\<close>

definition isValidWasmDrop :: "DataTransfer \<Rightarrow> error + DataTransferItem option" where
  "isValidWasmDrop dt =
     (if length (items dt) \<noteq> 1 then Inr None
      else case index (items dt) 0 of
             None \<Rightarrow> Inl TypeError
           | Some item \<Rightarrow>
               if kind item \<noteq> ''file'' then Inr None
               else if type item \<noteq> ''application/wasm'' then Inr None
               else Inr (Some item))"

text \<open>
  The predicate in the specification's words: exactly one dragged item, of kind
  \<open>file\<close>, with declared type \<open>application/wasm\<close>.
\<close>

definition isValidDrop :: "DataTransfer \<Rightarrow> bool" where
  "isValidDrop dt =
     (case items dt of
        [item] \<Rightarrow> kind item = ''file'' \<and> type item = ''application/wasm''
      | _ \<Rightarrow> False)"

subsection \<open>The page\<close>

text \<open>
  A URL is the page's own address or an object URL issued by the browser;
  \<open>ObjectURL n\<close> is the \<open>n\<close>-th one issued (the browser's fresh \<open>blob:\<close> string).
\<close>

datatype url = PageURL string | ObjectURL nat

text \<open>The browser calls that \<open>process\<close> makes, recorded in the order they are made.\<close>

datatype call =
    Call_arrayBuffer "File option"
  | Call_renderFlameGraph bytes
  | New_File File
  | Call_createObjectURL File
  | Set_href url

text \<open>
  The state that the module reads and writes:
  \<^item> \<open>classList\<close>: the class list of the drop-signal element, an ordered set of tokens;
  \<^item> \<open>href\<close>: \<open>location.href\<close>;
  \<^item> \<open>objectURLs\<close>: the browser's object-URL registry; entry \<open>n\<close> is the file behind
    \<open>ObjectURL n\<close>, and \<open>None\<close> once that URL has been revoked;
  \<^item> \<open>pending\<close>: the arguments of the invocations of \<open>process\<close> that have been started
    and have not settled;
  \<^item> \<open>calls\<close>: the browser calls made by \<open>process\<close> so far;
  \<^item> \<open>uncaught\<close>: the exceptions and promise rejections that no code handled.
  The drop-signal element is taken to exist (\<open>document.querySelector\<close> found it).
\<close>

record page =
  classList :: "string list"
  href :: url
  objectURLs :: "File option list"
  pending :: "File option list"
  calls :: "call list"
  uncaught :: "error list"

text \<open>The object URLs that are live, in the order of issue.\<close>

definition liveURLs :: "page \<Rightarrow> url list" where
  "liveURLs pg =
     map (\<lambda>(n, f). ObjectURL n) (filter (\<lambda>(n, f). f \<noteq> None) (enumerate 0 (objectURLs pg)))"

subsection \<open>The validation predicate as a call on the host\<close>





subsection \<open>\<open>process\<close>\<close>

text \<open>
  The rendering collaborator \<open>renderFlameGraph\<close> (\<open>./framegraph.js\<close>) is a parameter:
  a function from the buffer to what its promise does. It resolves with the SVG
  payload, rejects, or throws before returning a promise.
\<close>

datatype outcome = Resolves bytes | Rejects error | Throws error

datatype promise = Fulfilled | Rejected error

text \<open>
  \<open>new Response(file).arrayBuffer()\<close>: the whole contents of the file; a \<open>Response\<close>
  built from \<open>undefined\<close> has no body and yields the empty buffer. Files are in-memory
  blobs here, so the read itself does not fail.
\<close>

definition arrayBuffer :: "File option \<Rightarrow> bytes" where
  "arrayBuffer file = (case file of None \<Rightarrow> [] | Some f \<Rightarrow> bits f)"

definition record_call :: "call \<Rightarrow> page \<Rightarrow> page" where
  "record_call c pg = pg\<lparr>calls := calls pg @ [c]\<rparr>"

text \<open>\<open>URL.createObjectURL(f)\<close> registers \<open>f\<close> under a URL never issued before.\<close>

definition createObjectURL :: "File \<Rightarrow> page \<Rightarrow> url \<times> page" where
  "createObjectURL f pg =
     (ObjectURL (length (objectURLs pg)),
      record_call (Call_createObjectURL f) (pg\<lparr>objectURLs := objectURLs pg @ [Some f]\<rparr>))"

definition set_href :: "url \<Rightarrow> page \<Rightarrow> page" where
  "set_href u pg = record_call (Set_href u) (pg\<lparr>href := u\<rparr>)"

text \<open>
  \<^verbatim>\<open>
  async function process(file) {
    const buf = await new Response(file).arrayBuffer();
    const svg = await renderFlameGraph(buf);
    const svgFile = new File([svg], "flamegraph.svg", { type: "image/svg+xml" });
    const url = URL.createObjectURL(svgFile);
    location.href = url;
  }
  \<close>
  The function has no \<open>try\<close>: a rejected or thrown \<open>renderFlameGraph(buf)\<close> rejects the
  promise of \<open>process\<close> with the same error and the rest of the body does not run.
  The body touches the page only after its last \<open>await\<close>, so it is run here in one
  piece, on the page as it is when the body resumes.
\<close>

definition process :: "(bytes \<Rightarrow> outcome) \<Rightarrow> File option \<Rightarrow> page \<Rightarrow> promise \<times> page" where
  "process renderFlameGraph file pg =
     (let buf = arrayBuffer file;
          pg1 = record_call (Call_arrayBuffer file) pg;
          pg2 = record_call (Call_renderFlameGraph buf) pg1
      in case renderFlameGraph buf of
           Throws e \<Rightarrow> (Rejected e, pg2)
         | Rejects e \<Rightarrow> (Rejected e, pg2)
         | Resolves svg \<Rightarrow>
             (let svgFile = \<lparr>bits = svg, name = ''flamegraph.svg'', ftype = ''image/svg+xml''\<rparr>;
                  pg3 = record_call (New_File svgFile) pg2;
                  (url, pg4) = createObjectURL svgFile pg3
              in (Fulfilled, set_href url pg4)))"

subsection \<open>The drop signal\<close>

text \<open>
  \<open>classList.add(t)\<close> appends the token unless it is present;
  \<open>classList.remove(t1, t2)\<close> removes every occurrence of the tokens given.
\<close>

definition classList_add :: "string \<Rightarrow> string list \<Rightarrow> string list" where
  "classList_add t cl = (if t \<in> set cl then cl else cl @ [t])"

definition classList_remove :: "string list \<Rightarrow> string list \<Rightarrow> string list" where
  "classList_remove ts cl = filter (\<lambda>t. t \<notin> set ts) cl"

definition signalDropValid :: "styles \<Rightarrow> page \<Rightarrow> page" where
  "signalDropValid st pg = pg\<lparr>classList := classList_add (dropValid st) (classList pg)\<rparr>"

definition signalDropInvalid :: "styles \<Rightarrow> page \<Rightarrow> page" where
  "signalDropInvalid st pg = pg\<lparr>classList := classList_add (dropInvalid st) (classList pg)\<rparr>"

definition resetDropSignal :: "styles \<Rightarrow> page \<Rightarrow> page" where
  "resetDropSignal st pg =
     pg\<lparr>classList := classList_remove [dropValid st, dropInvalid st] (classList pg)\<rparr>"

text \<open>
  The decoration that the specification calls DropState, read off the class list:
  \<open>None\<close> when the element carries both markers at once.
\<close>

datatype DropState = Neutral | Valid | Invalid

definition dropState :: "styles \<Rightarrow> page \<Rightarrow> DropState option" where
  "dropState st pg =
     (let v = dropValid st \<in> set (classList pg);
          i = dropInvalid st \<in> set (classList pg)
      in if v \<and> i then None
         else if v then Some Valid
         else if i then Some Invalid
         else Some Neutral)"

subsection \<open>The handlers\<close>

definition preventDefault :: "DragEvent \<Rightarrow> DragEvent" where
  "preventDefault ev = ev\<lparr>defaultPrevented := True\<rparr>"

text \<open>An exception that leaves a handler is reported and the handler stops there.\<close>

definition throw :: "error \<Rightarrow> page \<Rightarrow> page" where
  "throw e pg = pg\<lparr>uncaught := uncaught pg @ [e]\<rparr>"

text \<open>
  A call \<open>process(file)\<close> whose promise is dropped: the invocation is started and
  settles later (see \<open>settle\<close>).
\<close>

definition call_process :: "File option \<Rightarrow> page \<Rightarrow> page" where
  "call_process file pg = pg\<lparr>pending := pending pg @ [file]\<rparr>"

text \<open>\<^verbatim>\<open>dropZone.ondragleave = () => resetDropSignal();\<close>\<close>

definition ondragleave :: "styles \<Rightarrow> page \<Rightarrow> page" where
  "ondragleave st pg = resetDropSignal st pg"

text \<open>
  \<^verbatim>\<open>
  dropZone.ondragover = ev => {
    ev.preventDefault();
    if (!isValidWasmDrop(ev.dataTransfer)) {
      signalDropInvalid();
      return;
    }
    signalDropValid();
  };
  \<close>
  \<open>null\<close> is falsy and an item, being an object, is truthy.
\<close>

definition ondragover :: "styles \<Rightarrow> DragEvent \<Rightarrow> page \<Rightarrow> DragEvent \<times> page" where
  "ondragover st ev pg =
     (let ev1 = preventDefault ev
      in case isValidWasmDrop (dataTransfer ev1) of
           Inl e \<Rightarrow> (ev1, throw e pg)
         | Inr r \<Rightarrow>
             if r = None then (ev1, signalDropInvalid st pg)
             else (ev1, signalDropValid st pg))"

text \<open>
  \<^verbatim>\<open>
  dropZone.ondrop = ev => {
    ev.preventDefault();
    resetDropSignal();
    if (!isValidWasmDrop(ev.dataTransfer)) return;
    const file = ev.dataTransfer.files[0];
    process(file);
  };
  \<close>
\<close>

definition ondrop :: "styles \<Rightarrow> DragEvent \<Rightarrow> page \<Rightarrow> DragEvent \<times> page" where
  "ondrop st ev pg =
     (let ev1 = preventDefault ev;
          pg1 = resetDropSignal st pg
      in case isValidWasmDrop (dataTransfer ev1) of
           Inl e \<Rightarrow> (ev1, throw e pg1)
         | Inr r \<Rightarrow>
             if r = None then (ev1, pg1)
             else (let file = index (files (dataTransfer ev1)) 0
                   in (ev1, call_process file pg1)))"

text \<open>
  \<^verbatim>\<open>f.onchange = () => process(f.files[0]);\<close> on the input element that
  \<open>fileSelect.onclick\<close> creates; \<open>fs\<close> is the chooser's file list.
\<close>

definition onchange :: "File list \<Rightarrow> page \<Rightarrow> page" where
  "onchange fs pg = call_process (index fs 0) pg"

text \<open>
  The \<open>k\<close>-th invocation in flight settles: its body runs, and a rejection is
  unhandled, because neither caller keeps the promise.
\<close>

definition settle :: "(bytes \<Rightarrow> outcome) \<Rightarrow> nat \<Rightarrow> page \<Rightarrow> page" where
  "settle renderFlameGraph k pg =
     (if k < length (pending pg) then
        (let file = pending pg ! k;
             pg1 = pg\<lparr>pending := take k (pending pg) @ drop (Suc k) (pending pg)\<rparr>
         in case process renderFlameGraph file pg1 of
              (Fulfilled, pg2) \<Rightarrow> pg2
            | (Rejected e, pg2) \<Rightarrow> throw e pg2)
      else pg)"

subsection \<open>Event sequences\<close>

datatype drag_event = DragOver DataTransfer | DragLeave | Drop DataTransfer

text \<open>Each event object is fresh: its default has not been prevented yet.\<close>

fun dispatch :: "styles \<Rightarrow> drag_event \<Rightarrow> page \<Rightarrow> page" where
  "dispatch st (DragOver dt) pg =
     snd (ondragover st \<lparr>dataTransfer = dt, defaultPrevented = False\<rparr> pg)"
| "dispatch st DragLeave pg = ondragleave st pg"
| "dispatch st (Drop dt) pg =
     snd (ondrop st \<lparr>dataTransfer = dt, defaultPrevented = False\<rparr> pg)"

fun drag_run :: "styles \<Rightarrow> drag_event list \<Rightarrow> page \<Rightarrow> page" where
  "drag_run st [] pg = pg"
| "drag_run st (ev # evs) pg = drag_run st evs (dispatch st ev pg)"

text \<open>Everything that can happen to the component: a drag event, a file chosen, an
  invocation of \<open>process\<close> settling.\<close>

datatype event = Drag drag_event | Change "File list" | Settle nat

fun step :: "(bytes \<Rightarrow> outcome) \<Rightarrow> styles \<Rightarrow> event \<Rightarrow> page \<Rightarrow> page" where
  "step r st (Drag ev) pg = dispatch st ev pg"
| "step r st (Change fs) pg = onchange fs pg"
| "step r st (Settle k) pg = settle r k pg"

fun run :: "(bytes \<Rightarrow> outcome) \<Rightarrow> styles \<Rightarrow> event list \<Rightarrow> page \<Rightarrow> page" where
  "run r st [] pg = pg"
| "run r st (ev # evs) pg = run r st evs (step r st ev pg)"

text \<open>Successive invocations of \<open>process\<close>, each run to its end.\<close>

fun renders :: "(bytes \<Rightarrow> outcome) \<Rightarrow> File option list \<Rightarrow> page \<Rightarrow> page" where
  "renders r [] pg = pg"
| "renders r (f # fs) pg = renders r fs (snd (process r f pg))"

subsection \<open>The specification's state machine\<close>

text \<open>
  The transitions as the specification words them: a drag-over moves to \<open>Valid\<close> or
  \<open>Invalid\<close> by the predicate, whatever the state before; a drag-leave and a drop
  move to \<open>Neutral\<close>.
\<close>

fun spec_step :: "DropState \<Rightarrow> drag_event \<Rightarrow> DropState" where
  "spec_step s (DragOver dt) = (if isValidDrop dt then Valid else Invalid)"
| "spec_step s DragLeave = Neutral"
| "spec_step s (Drop dt) = Neutral"

text \<open>
  A drag-over agrees with the decoration in place when there is none or when it
  signals the same verdict. A sequence is steady when each of its drag-overs agrees
  with the decoration left by the events before it: between two resets (the start, a
  drag-leave, a drop) all drag-overs give the same verdict, as they do within one drag
  gesture, whose payload does not change.
\<close>

fun agrees :: "DropState \<Rightarrow> drag_event \<Rightarrow> bool" where
  "agrees s (DragOver dt) = (s = Neutral \<or> s = (if isValidDrop dt then Valid else Invalid))"
| "agrees s DragLeave = True"
| "agrees s (Drop dt) = True"

fun steady :: "DropState \<Rightarrow> drag_event list \<Rightarrow> bool" where
  "steady s [] = True"
| "steady s (ev # evs) = (agrees s ev \<and> steady (spec_step s ev) evs)"

subsection \<open>Sample inputs\<close>

definition sample_styles :: styles where
  "sample_styles = \<lparr>dropSignal = ''drop-signal'', dropValid = ''drop-valid'',
     dropInvalid = ''drop-invalid'', fileSelect = ''file-select''\<rparr>"

definition sample_page :: page where
  "sample_page = \<lparr>classList = [''drop-signal''], href = PageURL ''index.html'',
     objectURLs = [], pending = [], calls = [], uncaught = []\<rparr>"

definition wasm_item :: DataTransferItem where
  "wasm_item = \<lparr>kind = ''file'', type = ''application/wasm''\<rparr>"

definition text_item :: DataTransferItem where
  "text_item = \<lparr>kind = ''file'', type = ''text/plain''\<rparr>"

definition wasm_file :: File where
  "wasm_file = \<lparr>bits = [0, 97, 115, 109], name = ''a.wasm'', ftype = ''application/wasm''\<rparr>"

definition wasm_drop :: DataTransfer where
  "wasm_drop = \<lparr>items = [wasm_item], files = [wasm_file]\<rparr>"

definition text_drop :: DataTransfer where
  "text_drop = \<lparr>items = [text_item], files = []\<rparr>"

definition echo :: "bytes \<Rightarrow> outcome" where
  "echo buf = Resolves buf"

definition refuse :: "bytes \<Rightarrow> outcome" where
  "refuse buf = Rejects (RenderError ''not a module'')"

section \<open>Properties\<close>

subsection \<open>The validation predicate\<close>

lemma index_singleton: "index [x] 0 = Some x"
  by (simp add: index_def)

lemma isValidWasmDrop_eq:
  "isValidWasmDrop dt = Inr (if isValidDrop dt then Some (hd (items dt)) else None)"
proof (cases "items dt")
  case Nil
  then show ?thesis by (simp add: isValidWasmDrop_def isValidDrop_def)
next
  case (Cons x xs)
  then show ?thesis
    by (cases xs) (simp_all add: isValidWasmDrop_def isValidDrop_def index_singleton)
qed

lemma isValidDrop_iff:
  "isValidDrop dt \<longleftrightarrow>
     (\<exists>item. items dt = [item] \<and> kind item = ''file'' \<and> type item = ''application/wasm'')"
  by (auto simp: isValidDrop_def split: list.splits)

text \<open>
  Claim C2. \<open>isValidWasmDrop\<close> returns the dragged item exactly when the payload has
  one item, of kind \<open>file\<close> and of declared type \<open>application/wasm\<close>; on every other
  payload it returns \<open>null\<close>. Two items that are both \<open>application/wasm\<close> are such a
  payload: the length test answers before either item is read.
\<close>

theorem isValidWasmDrop_iff_single_wasm_file:
  "(isValidWasmDrop dt = Inr (Some item) \<longleftrightarrow>
      items dt = [item] \<and> kind item = ''file'' \<and> type item = ''application/wasm'') \<and>
   (isValidWasmDrop dt = Inr None \<longleftrightarrow>
      \<not> (\<exists>i. items dt = [i] \<and> kind i = ''file'' \<and> type i = ''application/wasm''))"
proof (cases "items dt")
  case Nil
  then show ?thesis by (simp add: isValidWasmDrop_def)
next
  case (Cons x xs)
  then show ?thesis
    by (cases xs) (auto simp: isValidWasmDrop_def index_singleton)
qed

theorem isValidWasmDrop_iff_single_wasm_file_witness:
  "isValidWasmDrop \<lparr>items = [wasm_item], files = []\<rparr> = Inr (Some wasm_item) \<and>
   isValidWasmDrop \<lparr>items = [wasm_item, wasm_item], files = []\<rparr> = Inr None"
  using isValidWasmDrop_iff_single_wasm_file [of "\<lparr>items = [wasm_item], files = []\<rparr>" wasm_item]
    isValidWasmDrop_iff_single_wasm_file [of "\<lparr>items = [wasm_item, wasm_item], files = []\<rparr>" wasm_item]
  by (simp add: wasm_item_def)

text \<open>
  Claim C10. On every payload \<open>isValidWasmDrop\<close> returns a value, the item or
  \<open>null\<close>, and does not throw. Whenever index 0 is out of range (the empty item list)
  the function has already returned \<open>null\<close> on the length test, so \<open>item.kind\<close> is
  never read from \<open>undefined\<close>.
\<close>

theorem isValidWasmDrop_returns:
  "(\<exists>r. isValidWasmDrop dt = Inr r) \<and>
   (index (items dt) 0 = None \<longrightarrow> isValidWasmDrop dt = Inr None)"
  by (cases "items dt") (auto simp: isValidWasmDrop_def index_def)

theorem isValidWasmDrop_returns_witness:
  "index (items \<lparr>items = [], files = []\<rparr>) 0 = None \<and>
   isValidWasmDrop \<lparr>items = [], files = []\<rparr> = Inr None"
  using isValidWasmDrop_returns [of "\<lparr>items = [], files = []\<rparr>"]
  by (simp add: index_def)






lemma dropState_resetDropSignal: "dropState st (resetDropSignal st pg) = Some Neutral"
  by (simp add: dropState_def resetDropSignal_def classList_remove_def)

text \<open>
  Claim C5. A drag-leave resets the decoration to \<open>Neutral\<close> from every prior state of
  the class list, also from one that carries both markers.
\<close>

theorem ondragleave_resets: "dropState st (ondragleave st pg) = Some Neutral"
  by (simp add: ondragleave_def dropState_resetDropSignal)

theorem ondragleave_resets_witness:
  "dropState sample_styles (sample_page\<lparr>classList := [''drop-signal'', ''drop-invalid'', ''drop-valid'']\<rparr>) = None \<and>
   dropState sample_styles (ondragleave sample_styles
       (sample_page\<lparr>classList := [''drop-signal'', ''drop-invalid'', ''drop-valid'']\<rparr>)) = Some Neutral"
  using ondragleave_resets [of sample_styles
      "sample_page\<lparr>classList := [''drop-signal'', ''drop-invalid'', ''drop-valid'']\<rparr>"]
  by (simp add: dropState_def sample_styles_def sample_page_def)


lemma isValidWasmDrop_valid:
  "isValidDrop dt \<Longrightarrow> isValidWasmDrop dt = Inr (Some (hd (items dt)))"
  by (simp add: isValidWasmDrop_eq)

lemma isValidWasmDrop_invalid:
  "\<not> isValidDrop dt \<Longrightarrow> isValidWasmDrop dt = Inr None"
  by (simp add: isValidWasmDrop_eq)

lemma dataTransfer_preventDefault: "dataTransfer (preventDefault ev) = dataTransfer ev"
  by (simp add: preventDefault_def)

lemma ondrop_valid_eq:
  "isValidDrop (dataTransfer ev) \<Longrightarrow>
   ondrop st ev pg =
     (preventDefault ev, call_process (index (files (dataTransfer ev)) 0) (resetDropSignal st pg))"
  by (simp add: ondrop_def Let_def dataTransfer_preventDefault isValidWasmDrop_valid)

lemma ondrop_invalid_eq:
  "\<not> isValidDrop (dataTransfer ev) \<Longrightarrow>
   ondrop st ev pg = (preventDefault ev, resetDropSignal st pg)"
  by (simp add: ondrop_def Let_def dataTransfer_preventDefault isValidWasmDrop_invalid)

lemma dropState_call_process: "dropState st (call_process f pg) = dropState st pg"
  by (simp add: dropState_def call_process_def)

text \<open>
  Claim C3. On a drop whose payload satisfies the validation predicate, the handler
  prevents the default, resets the decoration to \<open>Neutral\<close> and invokes \<open>process\<close>
  exactly once, with \<open>ev.dataTransfer.files[0]\<close>: the first dropped file whenever
  the file list is not empty.
\<close>

theorem ondrop_accepts:
  assumes "isValidDrop (dataTransfer ev)" and "ondrop st ev pg = (ev', pg')"
  shows "defaultPrevented ev' \<and>
         dropState st pg' = Some Neutral \<and>
         pending pg' = pending pg @ [index (files (dataTransfer ev)) 0] \<and>
         (\<forall>f fs. files (dataTransfer ev) = f # fs \<longrightarrow> pending pg' = pending pg @ [Some f])"
proof -
  from assms have ev': "ev' = preventDefault ev"
    and pg': "pg' = call_process (index (files (dataTransfer ev)) 0) (resetDropSignal st pg)"
    by (simp_all add: ondrop_valid_eq)
  have "defaultPrevented ev'"
    by (simp add: ev' preventDefault_def)
  moreover have "dropState st pg' = Some Neutral"
    by (simp add: pg' dropState_call_process dropState_resetDropSignal)
  moreover have p: "pending pg' = pending pg @ [index (files (dataTransfer ev)) 0]"
    by (simp add: pg' call_process_def resetDropSignal_def)
  moreover have "\<forall>f fs. files (dataTransfer ev) = f # fs \<longrightarrow> pending pg' = pending pg @ [Some f]"
    by (simp add: p index_def)
  ultimately show ?thesis by blast
qed

theorem ondrop_accepts_witness:
  "isValidDrop (dataTransfer \<lparr>dataTransfer = wasm_drop, defaultPrevented = False\<rparr>) \<and>
   defaultPrevented (fst (ondrop sample_styles \<lparr>dataTransfer = wasm_drop, defaultPrevented = False\<rparr> sample_page)) \<and>
   dropState sample_styles
     (snd (ondrop sample_styles \<lparr>dataTransfer = wasm_drop, defaultPrevented = False\<rparr> sample_page))
     = Some Neutral \<and>
   pending (snd (ondrop sample_styles \<lparr>dataTransfer = wasm_drop, defaultPrevented = False\<rparr> sample_page))
     = [Some wasm_file]"
proof -
  have v: "isValidDrop (dataTransfer \<lparr>dataTransfer = wasm_drop, defaultPrevented = False\<rparr>)"
    by (simp add: isValidDrop_def wasm_drop_def wasm_item_def)
  show ?thesis
    using v ondrop_accepts [OF v surjective_pairing, of sample_styles sample_page]
    by (simp add: wasm_drop_def sample_page_def index_def)
qed

text \<open>
  Claim C4. On a drop whose payload fails the validation predicate, the handler
  prevents the default and resets the decoration to \<open>Neutral\<close>; no invocation of
  \<open>process\<close> is started, nothing is reported as uncaught, and the page changes in its
  class list only.
\<close>

theorem ondrop_discards:
  assumes "\<not> isValidDrop (dataTransfer ev)" and "ondrop st ev pg = (ev', pg')"
  shows "defaultPrevented ev' \<and>
         dropState st pg' = Some Neutral \<and>
         pending pg' = pending pg \<and>
         uncaught pg' = uncaught pg \<and>
         pg' = pg\<lparr>classList := classList pg'\<rparr>"
proof -
  from assms have ev': "ev' = preventDefault ev" and pg': "pg' = resetDropSignal st pg"
    by (simp_all add: ondrop_invalid_eq)
  have "defaultPrevented ev'"
    by (simp add: ev' preventDefault_def)
  moreover have "dropState st pg' = Some Neutral"
    by (simp add: pg' dropState_resetDropSignal)
  moreover have "pending pg' = pending pg" "uncaught pg' = uncaught pg"
    "pg' = pg\<lparr>classList := classList pg'\<rparr>"
    by (simp_all add: pg' resetDropSignal_def)
  ultimately show ?thesis by blast
qed

theorem ondrop_discards_witness:
  "\<not> isValidDrop (dataTransfer \<lparr>dataTransfer = text_drop, defaultPrevented = False\<rparr>) \<and>
   defaultPrevented (fst (ondrop sample_styles \<lparr>dataTransfer = text_drop, defaultPrevented = False\<rparr> sample_page)) \<and>
   dropState sample_styles
     (snd (ondrop sample_styles \<lparr>dataTransfer = text_drop, defaultPrevented = False\<rparr> sample_page))
     = Some Neutral \<and>
   pending (snd (ondrop sample_styles \<lparr>dataTransfer = text_drop, defaultPrevented = False\<rparr> sample_page))
     = [] \<and>
   uncaught (snd (ondrop sample_styles \<lparr>dataTransfer = text_drop, defaultPrevented = False\<rparr> sample_page))
     = []"
proof -
  have v: "\<not> isValidDrop (dataTransfer \<lparr>dataTransfer = text_drop, defaultPrevented = False\<rparr>)"
    by (simp add: isValidDrop_def text_drop_def text_item_def)
  show ?thesis
    using v ondrop_discards [OF v surjective_pairing, of sample_styles sample_page]
    by (simp add: sample_page_def)
qed

text \<open>
  Claim C6. For every input file on which the rendering collaborator resolves,
  \<open>process\<close> makes exactly these calls in this order: it reads the whole file into a
  buffer, calls the collaborator on that buffer, wraps the payload as the file
  \<open>flamegraph.svg\<close> of type \<open>image/svg+xml\<close>, creates an object URL for that file and
  sets the page location to that URL. Nothing else of the page changes.
\<close>

theorem process_steps:
  assumes "renderFlameGraph (bits f) = Resolves svg"
  shows "process renderFlameGraph (Some f) pg =
           (Fulfilled,
            pg\<lparr>href := ObjectURL (length (objectURLs pg)),
               objectURLs := objectURLs pg @
                 [Some \<lparr>bits = svg, name = ''flamegraph.svg'', ftype = ''image/svg+xml''\<rparr>],
               calls := calls pg @
                 [Call_arrayBuffer (Some f),
                  Call_renderFlameGraph (bits f),
                  New_File \<lparr>bits = svg, name = ''flamegraph.svg'', ftype = ''image/svg+xml''\<rparr>,
                  Call_createObjectURL
                    \<lparr>bits = svg, name = ''flamegraph.svg'', ftype = ''image/svg+xml''\<rparr>,
                  Set_href (ObjectURL (length (objectURLs pg)))]\<rparr>)"
  using assms
  by (simp add: process_def Let_def arrayBuffer_def record_call_def createObjectURL_def set_href_def)

theorem process_steps_witness:
  "echo (bits wasm_file) = Resolves (bits wasm_file) \<and>
   process echo (Some wasm_file) sample_page =
     (Fulfilled,
      sample_page\<lparr>href := ObjectURL 0,
         objectURLs :=
           [Some \<lparr>bits = bits wasm_file, name = ''flamegraph.svg'', ftype = ''image/svg+xml''\<rparr>],
         calls :=
           [Call_arrayBuffer (Some wasm_file),
            Call_renderFlameGraph (bits wasm_file),
            New_File \<lparr>bits = bits wasm_file, name = ''flamegraph.svg'', ftype = ''image/svg+xml''\<rparr>,
            Call_createObjectURL
              \<lparr>bits = bits wasm_file, name = ''flamegraph.svg'', ftype = ''image/svg+xml''\<rparr>,
            Set_href (ObjectURL 0)]\<rparr>)"
proof -
  have r: "echo (bits wasm_file) = Resolves (bits wasm_file)"
    by (simp add: echo_def)
  show ?thesis
    using r process_steps [of echo wasm_file "bits wasm_file" sample_page]
    by (simp add: sample_page_def)
qed

lemma process_failure_eq:
  assumes "renderFlameGraph (arrayBuffer file) = Rejects e \<or>
           renderFlameGraph (arrayBuffer file) = Throws e"
  shows "process renderFlameGraph file pg =
           (Rejected e,
            pg\<lparr>calls := calls pg @ [Call_arrayBuffer file, Call_renderFlameGraph (arrayBuffer file)]\<rparr>)"
  using assms by (auto simp: process_def Let_def record_call_def)

text \<open>
  Claim C7. When the rendering collaborator rejects or throws, the promise of
  \<open>process\<close> is rejected with the collaborator's error, and the calls made are the
  read and the render only: no SVG file is created, no object URL is issued and the
  location is unchanged. When that invocation settles, the error is reported as
  uncaught.
\<close>

theorem process_render_failure:
  assumes "renderFlameGraph (arrayBuffer file) = Rejects e \<or>
           renderFlameGraph (arrayBuffer file) = Throws e"
  shows "process renderFlameGraph file pg =
           (Rejected e,
            pg\<lparr>calls := calls pg @ [Call_arrayBuffer file, Call_renderFlameGraph (arrayBuffer file)]\<rparr>) \<and>
         href (snd (process renderFlameGraph file pg)) = href pg \<and>
         objectURLs (snd (process renderFlameGraph file pg)) = objectURLs pg \<and>
         (\<forall>k. k < length (pending pg) \<and> pending pg ! k = file \<longrightarrow>
              uncaught (settle renderFlameGraph k pg) = uncaught pg @ [e] \<and>
              href (settle renderFlameGraph k pg) = href pg \<and>
              objectURLs (settle renderFlameGraph k pg) = objectURLs pg)"
proof -
  have eq: "process renderFlameGraph file pg =
           (Rejected e,
            pg\<lparr>calls := calls pg @ [Call_arrayBuffer file, Call_renderFlameGraph (arrayBuffer file)]\<rparr>)"
    for pg
    using assms by (rule process_failure_eq)
  have "\<forall>k. k < length (pending pg) \<and> pending pg ! k = file \<longrightarrow>
              uncaught (settle renderFlameGraph k pg) = uncaught pg @ [e] \<and>
              href (settle renderFlameGraph k pg) = href pg \<and>
              objectURLs (settle renderFlameGraph k pg) = objectURLs pg"
    by (simp add: settle_def Let_def eq throw_def)
  then show ?thesis by (simp add: eq)
qed

theorem process_render_failure_witness:
  "(refuse (arrayBuffer (Some wasm_file)) = Rejects (RenderError ''not a module'') \<or>
    refuse (arrayBuffer (Some wasm_file)) = Throws (RenderError ''not a module'')) \<and>
   process refuse (Some wasm_file) sample_page =
     (Rejected (RenderError ''not a module''),
      sample_page\<lparr>calls := [Call_arrayBuffer (Some wasm_file),
                             Call_renderFlameGraph (arrayBuffer (Some wasm_file))]\<rparr>) \<and>
   uncaught (settle refuse 0 (sample_page\<lparr>pending := [Some wasm_file]\<rparr>)) =
     [RenderError ''not a module'']"
proof -
  have r: "refuse (arrayBuffer (Some wasm_file)) = Rejects (RenderError ''not a module'') \<or>
           refuse (arrayBuffer (Some wasm_file)) = Throws (RenderError ''not a module'')"
    by (simp add: refuse_def)
  show ?thesis
    using r
      process_render_failure [of refuse "Some wasm_file" "RenderError ''not a module''" sample_page]
      process_render_failure [of refuse "Some wasm_file" "RenderError ''not a module''"
        "sample_page\<lparr>pending := [Some wasm_file]\<rparr>"]
    by (simp add: sample_page_def)
qed


lemma ondragover_eq:
  "ondragover st ev pg =
     (preventDefault ev,
      if isValidDrop (dataTransfer ev) then signalDropValid st pg else signalDropInvalid st pg)"
  by (simp add: ondragover_def Let_def dataTransfer_preventDefault isValidWasmDrop_eq)

lemma ondrop_eq:
  "ondrop st ev pg =
     (preventDefault ev,
      if isValidDrop (dataTransfer ev)
      then call_process (index (files (dataTransfer ev)) 0) (resetDropSignal st pg)
      else resetDropSignal st pg)"
  by (simp add: ondrop_valid_eq ondrop_invalid_eq)

lemma set_classList_add: "set (classList_add t cl) = insert t (set cl)"
  by (auto simp: classList_add_def)

lemma markers_DragOver:
  assumes "dropValid st \<noteq> dropInvalid st"
  shows "(dropValid st \<in> set (classList (dispatch st (DragOver dt) pg)) \<longleftrightarrow>
            isValidDrop dt \<or> dropValid st \<in> set (classList pg)) \<and>
         (dropInvalid st \<in> set (classList (dispatch st (DragOver dt) pg)) \<longleftrightarrow>
            \<not> isValidDrop dt \<or> dropInvalid st \<in> set (classList pg))"
  using assms
  by (auto simp: ondragover_eq signalDropValid_def signalDropInvalid_def set_classList_add)

lemma dropState_cases:
  "dropState st pg = Some s \<longleftrightarrow>
     (s = Neutral \<and> dropValid st \<notin> set (classList pg) \<and> dropInvalid st \<notin> set (classList pg)) \<or>
     (s = Valid \<and> dropValid st \<in> set (classList pg) \<and> dropInvalid st \<notin> set (classList pg)) \<or>
     (s = Invalid \<and> dropValid st \<notin> set (classList pg) \<and> dropInvalid st \<in> set (classList pg))"
  by (cases s) (auto simp: dropState_def Let_def)

lemma dropState_dispatch:
  assumes "dropValid st \<noteq> dropInvalid st" and "dropState st pg = Some s" and "agrees s ev"
  shows "dropState st (dispatch st ev pg) = Some (spec_step s ev)"
proof (cases ev)
  case (DragOver dt)
  from assms(2) have m:
    "(s = Neutral \<and> dropValid st \<notin> set (classList pg) \<and> dropInvalid st \<notin> set (classList pg)) \<or>
     (s = Valid \<and> dropValid st \<in> set (classList pg) \<and> dropInvalid st \<notin> set (classList pg)) \<or>
     (s = Invalid \<and> dropValid st \<notin> set (classList pg) \<and> dropInvalid st \<in> set (classList pg))"
    by (simp only: dropState_cases)
  from assms(3) DragOver
  have a: "s = Neutral \<or> s = (if isValidDrop dt then Valid else Invalid)" by simp
  have "dropState st (dispatch st (DragOver dt) pg) =
          Some (if isValidDrop dt then Valid else Invalid)"
    unfolding dropState_cases using markers_DragOver [OF assms(1), of dt pg] m a
    by (cases "isValidDrop dt") auto
  with DragOver show ?thesis by simp
next
  case DragLeave
  then show ?thesis by (simp add: ondragleave_def dropState_resetDropSignal)
next
  case (Drop dt)
  then show ?thesis
    by (simp add: ondrop_eq dropState_call_process dropState_resetDropSignal)
qed

lemma dropState_drag_run:
  assumes "dropValid st \<noteq> dropInvalid st"
  shows "dropState st pg = Some s \<Longrightarrow> steady s evs \<Longrightarrow>
         dropState st (drag_run st evs pg) = Some (foldl spec_step s evs)"
proof (induction evs arbitrary: pg s)
  case Nil
  then show ?case by simp
next
  case (Cons ev evs)
  from Cons.prems have "dropState st (dispatch st ev pg) = Some (spec_step s ev)"
    by (simp add: dropState_dispatch [OF assms])
  moreover from Cons.prems have "steady (spec_step s ev) evs" by simp
  ultimately show ?case using Cons.IH by simp
qed

lemma steady_take: "steady s evs \<Longrightarrow> steady s (take n evs)"
proof (induction evs arbitrary: s n)
  case Nil
  then show ?case by simp
next
  case (Cons ev evs)
  then show ?case by (cases n) simp_all
qed

lemma classList_DragOver:
  "classList (dispatch st (DragOver dt) pg) =
     (if (if isValidDrop dt then dropValid st else dropInvalid st) \<in> set (classList pg)
      then classList pg
      else classList pg @ [if isValidDrop dt then dropValid st else dropInvalid st])"
  by (simp add: ondragover_eq signalDropValid_def signalDropInvalid_def classList_add_def)

lemma dispatch_DragOver_frame:
  "dispatch st (DragOver dt) pg = pg\<lparr>classList := classList (dispatch st (DragOver dt) pg)\<rparr>"
  by (simp add: ondragover_eq signalDropValid_def signalDropInvalid_def)

lemma classList_reset:
  "classList (dispatch st DragLeave pg) =
     filter (\<lambda>t. t \<noteq> dropValid st \<and> t \<noteq> dropInvalid st) (classList pg)"
  "classList (dispatch st (Drop dt) pg) =
     filter (\<lambda>t. t \<noteq> dropValid st \<and> t \<noteq> dropInvalid st) (classList pg)"
  by (simp_all add: ondragleave_def ondrop_eq resetDropSignal_def classList_remove_def
      call_process_def)

lemma both_markers_DragOver:
  assumes "dropValid st \<noteq> dropInvalid st"
    and "dropInvalid st \<in> set (classList pg) \<and> isValidDrop dt \<or>
         dropValid st \<in> set (classList pg) \<and> \<not> isValidDrop dt"
  shows "dropValid st \<in> set (classList (dispatch st (DragOver dt) pg)) \<and>
         dropInvalid st \<in> set (classList (dispatch st (DragOver dt) pg)) \<and>
         dropState st (dispatch st (DragOver dt) pg) = None"
proof -
  from assms markers_DragOver [OF assms(1), of dt pg]
  have "dropValid st \<in> set (classList (dispatch st (DragOver dt) pg))"
    and "dropInvalid st \<in> set (classList (dispatch st (DragOver dt) pg))"
    by blast+
  then show ?thesis by (simp add: dropState_def)
qed

text \<open>
  Claim C1, as amended, for a valid and an invalid marker that are two different
  class names. A drag-over appends its own marker to the class list (the valid one
  when the predicate matches, the invalid one when it does not) unless that marker is
  already there, and changes nothing else of the page: it removes no marker and never
  duplicates one. A drag-leave and a drop remove both markers and no other class. So
  along every steady sequence of drag events from \<open>Neutral\<close>, and after each of its
  prefixes, the decoration is exactly the state of the specification's machine:
  \<open>Neutral\<close> after a reset, exactly \<open>Valid\<close> or exactly \<open>Invalid\<close> after a drag-over. A
  drag-over whose verdict differs from a marker in place leaves both markers on the
  element, which is no state of the three.
\<close>

theorem decoration_steady_run:
  assumes "dropValid st \<noteq> dropInvalid st"
  shows "(dropState st pg = Some Neutral \<and> steady Neutral evs \<longrightarrow>
            (\<forall>n. dropState st (drag_run st (take n evs) pg) =
                   Some (foldl spec_step Neutral (take n evs))) \<and>
            dropState st (drag_run st evs pg) = Some (foldl spec_step Neutral evs)) \<and>
         classList (dispatch st (DragOver dt) pg) =
           (if (if isValidDrop dt then dropValid st else dropInvalid st) \<in> set (classList pg)
            then classList pg
            else classList pg @ [if isValidDrop dt then dropValid st else dropInvalid st]) \<and>
         dispatch st (DragOver dt) pg =
           pg\<lparr>classList := classList (dispatch st (DragOver dt) pg)\<rparr> \<and>
         classList (dispatch st DragLeave pg) =
           filter (\<lambda>t. t \<noteq> dropValid st \<and> t \<noteq> dropInvalid st) (classList pg) \<and>
         classList (dispatch st (Drop dt) pg) =
           filter (\<lambda>t. t \<noteq> dropValid st \<and> t \<noteq> dropInvalid st) (classList pg) \<and>
         (dropValid st \<in> set (classList (dispatch st (DragOver dt) pg)) \<longleftrightarrow>
            isValidDrop dt \<or> dropValid st \<in> set (classList pg)) \<and>
         (dropInvalid st \<in> set (classList (dispatch st (DragOver dt) pg)) \<longleftrightarrow>
            \<not> isValidDrop dt \<or> dropInvalid st \<in> set (classList pg)) \<and>
         (dropInvalid st \<in> set (classList pg) \<and> isValidDrop dt \<or>
          dropValid st \<in> set (classList pg) \<and> \<not> isValidDrop dt \<longrightarrow>
            dropValid st \<in> set (classList (dispatch st (DragOver dt) pg)) \<and>
            dropInvalid st \<in> set (classList (dispatch st (DragOver dt) pg)) \<and>
            dropState st (dispatch st (DragOver dt) pg) = None)"
proof -
  have run: "dropState st (drag_run st (take n evs) pg) =
               Some (foldl spec_step Neutral (take n evs))"
    if "dropState st pg = Some Neutral" and "steady Neutral evs" for n
    using that by (intro dropState_drag_run [OF assms] steady_take)
  have seq: "dropState st pg = Some Neutral \<and> steady Neutral evs \<longrightarrow>
            (\<forall>n. dropState st (drag_run st (take n evs) pg) =
                   Some (foldl spec_step Neutral (take n evs))) \<and>
            dropState st (drag_run st evs pg) = Some (foldl spec_step Neutral evs)"
    using run dropState_drag_run [OF assms, of pg Neutral evs] by blast
  have both: "dropInvalid st \<in> set (classList pg) \<and> isValidDrop dt \<or>
          dropValid st \<in> set (classList pg) \<and> \<not> isValidDrop dt \<longrightarrow>
            dropValid st \<in> set (classList (dispatch st (DragOver dt) pg)) \<and>
            dropInvalid st \<in> set (classList (dispatch st (DragOver dt) pg)) \<and>
            dropState st (dispatch st (DragOver dt) pg) = None"
    using both_markers_DragOver [OF assms, of pg dt] by blast
  show ?thesis
    by (intro conjI seq both classList_DragOver dispatch_DragOver_frame classList_reset
        conjunct1 [OF markers_DragOver [OF assms]] conjunct2 [OF markers_DragOver [OF assms]])
qed

theorem decoration_steady_run_witness:
  "dropValid sample_styles \<noteq> dropInvalid sample_styles \<and>
   dropState sample_styles sample_page = Some Neutral \<and>
   steady Neutral [DragOver text_drop, DragOver text_drop, DragLeave, DragOver wasm_drop] \<and>
   dropState sample_styles
     (drag_run sample_styles [DragOver text_drop, DragOver text_drop, DragLeave, DragOver wasm_drop]
        sample_page) = Some Valid \<and>
   dropState sample_styles
     (drag_run sample_styles [DragOver text_drop, DragOver text_drop] sample_page) = Some Invalid \<and>
   classList (dispatch sample_styles (DragOver text_drop)
       (sample_page\<lparr>classList := [''drop-signal'', ''drop-invalid'']\<rparr>)) =
     [''drop-signal'', ''drop-invalid''] \<and>
   classList (dispatch sample_styles (DragOver wasm_drop)
       (sample_page\<lparr>classList := [''drop-signal'', ''drop-invalid'']\<rparr>)) =
     [''drop-signal'', ''drop-invalid'', ''drop-valid''] \<and>
   dropState sample_styles (dispatch sample_styles (DragOver wasm_drop)
       (sample_page\<lparr>classList := [''drop-signal'', ''drop-invalid'']\<rparr>)) = None \<and>
   classList (dispatch sample_styles DragLeave
       (sample_page\<lparr>classList := [''drop-signal'', ''drop-invalid'', ''drop-valid'']\<rparr>)) =
     [''drop-signal'']"
proof -
  have d: "dropValid sample_styles \<noteq> dropInvalid sample_styles"
    by (simp add: sample_styles_def)
  have n: "dropState sample_styles sample_page = Some Neutral"
    by (simp add: dropState_def sample_styles_def sample_page_def)
  have v: "\<not> isValidDrop text_drop" "isValidDrop wasm_drop"
    by (simp_all add: isValidDrop_def text_drop_def text_item_def wasm_drop_def wasm_item_def)
  have s: "steady Neutral [DragOver text_drop, DragOver text_drop, DragLeave, DragOver wasm_drop]"
    by (simp add: v)
  have t: "take 2 [DragOver text_drop, DragOver text_drop, DragLeave, DragOver wasm_drop] =
      [DragOver text_drop, DragOver text_drop]"
    by simp
  note th = decoration_steady_run [OF d]
  from th [of sample_page
        "[DragOver text_drop, DragOver text_drop, DragLeave, DragOver wasm_drop]"] n s
  have r1: "dropState sample_styles
     (drag_run sample_styles [DragOver text_drop, DragOver text_drop, DragLeave, DragOver wasm_drop]
        sample_page) = Some Valid"
    and r2: "dropState sample_styles
     (drag_run sample_styles
        (take 2 [DragOver text_drop, DragOver text_drop, DragLeave, DragOver wasm_drop])
        sample_page)
      = Some (foldl spec_step Neutral
          (take 2 [DragOver text_drop, DragOver text_drop, DragLeave, DragOver wasm_drop]))"
    by (simp_all add: v del: drag_run.simps take_Cons_numeral)
  from r2 have r2': "dropState sample_styles
     (drag_run sample_styles [DragOver text_drop, DragOver text_drop] sample_page) = Some Invalid"
    unfolding t by (simp add: v del: drag_run.simps)
  from th [of "sample_page\<lparr>classList := [''drop-signal'', ''drop-invalid'']\<rparr>" "[]" text_drop]
  have r3: "classList (dispatch sample_styles (DragOver text_drop)
       (sample_page\<lparr>classList := [''drop-signal'', ''drop-invalid'']\<rparr>)) =
     [''drop-signal'', ''drop-invalid'']"
    by (simp add: v sample_styles_def del: dispatch.simps)
  from th [of "sample_page\<lparr>classList := [''drop-signal'', ''drop-invalid'']\<rparr>" "[]" wasm_drop]
  have r4: "classList (dispatch sample_styles (DragOver wasm_drop)
       (sample_page\<lparr>classList := [''drop-signal'', ''drop-invalid'']\<rparr>)) =
     [''drop-signal'', ''drop-invalid'', ''drop-valid'']"
    and r5: "dropState sample_styles (dispatch sample_styles (DragOver wasm_drop)
       (sample_page\<lparr>classList := [''drop-signal'', ''drop-invalid'']\<rparr>)) = None"
    by (simp_all add: v sample_styles_def del: dispatch.simps)
  from th [of "sample_page\<lparr>classList := [''drop-signal'', ''drop-invalid'', ''drop-valid'']\<rparr>"
      "[]" wasm_drop]
  have r6: "classList (dispatch sample_styles DragLeave
       (sample_page\<lparr>classList := [''drop-signal'', ''drop-invalid'', ''drop-valid'']\<rparr>)) =
     [''drop-signal'']"
    by (simp add: sample_styles_def del: dispatch.simps)
  from d n s r1 r2' r3 r4 r5 r6 show ?thesis by blast
qed

text \<open>
  Claim C1, as stated, fails: from \<open>Neutral\<close>, a drag-over with one \<open>text/plain\<close> item
  followed by a drag-over with one \<open>application/wasm\<close> item leaves both markers on the
  element, which is none of \<open>Neutral\<close>, \<open>Valid\<close>, \<open>Invalid\<close>.
\<close>

theorem decoration_both_markers:
  "dropState sample_styles sample_page = Some Neutral \<and>
   \<not> isValidDrop text_drop \<and> isValidDrop wasm_drop \<and>
   classList (drag_run sample_styles [DragOver text_drop, DragOver wasm_drop] sample_page) =
     [''drop-signal'', ''drop-invalid'', ''drop-valid''] \<and>
   dropState sample_styles
     (drag_run sample_styles [DragOver text_drop, DragOver wasm_drop] sample_page)
     \<notin> {Some Neutral, Some Valid, Some Invalid}"
proof -
  have v: "\<not> isValidDrop text_drop" "isValidDrop wasm_drop"
    by (simp_all add: isValidDrop_def text_drop_def text_item_def wasm_drop_def wasm_item_def)
  have c: "classList (drag_run sample_styles [DragOver text_drop, DragOver wasm_drop] sample_page) =
     [''drop-signal'', ''drop-invalid'', ''drop-valid'']"
    by (simp add: ondragover_eq v signalDropValid_def signalDropInvalid_def
        classList_add_def sample_styles_def sample_page_def)
  have n: "dropState sample_styles sample_page = Some Neutral"
    by (simp add: dropState_def sample_styles_def sample_page_def)
  have "dropState sample_styles
     (drag_run sample_styles [DragOver text_drop, DragOver wasm_drop] sample_page) = None"
    unfolding dropState_def c by (simp add: sample_styles_def)
  with v c n show ?thesis by simp
qed

lemma liveURLs_append:
  "liveURLs (pg\<lparr>objectURLs := objectURLs pg @ [Some f]\<rparr>) =
     liveURLs pg @ [ObjectURL (length (objectURLs pg))]"
  by (simp add: liveURLs_def enumerate_append_eq)

lemma objectURLs_process:
  "objectURLs (snd (process r file pg)) =
     objectURLs pg @
       (case r (arrayBuffer file) of
          Resolves svg \<Rightarrow> [Some \<lparr>bits = svg, name = ''flamegraph.svg'', ftype = ''image/svg+xml''\<rparr>]
        | Rejects e \<Rightarrow> []
        | Throws e \<Rightarrow> [])"
  by (simp add: process_def Let_def record_call_def createObjectURL_def set_href_def
      split: outcome.splits)

lemma liveURLs_cong: "objectURLs pg = objectURLs pg' \<Longrightarrow> liveURLs pg = liveURLs pg'"
  by (simp add: liveURLs_def)

lemma liveURLs_process_Resolves:
  assumes "r (arrayBuffer file) = Resolves svg"
  shows "liveURLs (snd (process r file pg)) = liveURLs pg @ [ObjectURL (length (objectURLs pg))]"
proof -
  have "objectURLs (snd (process r file pg)) =
        objectURLs (pg\<lparr>objectURLs := objectURLs pg @
          [Some \<lparr>bits = svg, name = ''flamegraph.svg'', ftype = ''image/svg+xml''\<rparr>]\<rparr>)"
    by (simp add: objectURLs_process assms)
  then have "liveURLs (snd (process r file pg)) =
        liveURLs (pg\<lparr>objectURLs := objectURLs pg @
          [Some \<lparr>bits = svg, name = ''flamegraph.svg'', ftype = ''image/svg+xml''\<rparr>]\<rparr>)"
    by (rule liveURLs_cong)
  then show ?thesis
    by (simp add: liveURLs_append)
qed

lemma liveURLs_renders:
  "(\<forall>f \<in> set fs. \<exists>svg. r (arrayBuffer f) = Resolves svg) \<Longrightarrow>
   liveURLs (renders r fs pg) =
     liveURLs pg @ map ObjectURL [length (objectURLs pg) ..< length (objectURLs pg) + length fs] \<and>
   length (objectURLs (renders r fs pg)) = length (objectURLs pg) + length fs"
proof (induction fs arbitrary: pg)
  case Nil
  then show ?case by simp
next
  case (Cons f fs)
  define n where "n = length (objectURLs pg)"
  define pg' where "pg' = snd (process r f pg)"
  from Cons.prems obtain svg where svg: "r (arrayBuffer f) = Resolves svg" by auto
  have l: "length (objectURLs pg') = Suc n"
    by (simp add: pg'_def n_def objectURLs_process svg)
  have live: "liveURLs pg' = liveURLs pg @ [ObjectURL n]"
    unfolding pg'_def n_def using svg by (rule liveURLs_process_Resolves)
  from Cons.prems have "\<forall>f \<in> set fs. \<exists>svg. r (arrayBuffer f) = Resolves svg" by simp
  from Cons.IH [OF this, of pg']
  have ih: "liveURLs (renders r fs pg') = liveURLs pg' @ map ObjectURL [Suc n ..< Suc n + length fs]"
    and ihl: "length (objectURLs (renders r fs pg')) = Suc n + length fs"
    unfolding l by blast+
  have u: "[n ..< n + length (f # fs)] = n # [Suc n ..< Suc n + length fs]"
    by (subst upt_rec) simp
  have "liveURLs (renders r (f # fs) pg) = liveURLs (renders r fs pg')"
    by (simp add: pg'_def)
  also have "\<dots> = (liveURLs pg @ [ObjectURL n]) @ map ObjectURL [Suc n ..< Suc n + length fs]"
    by (simp only: ih live)
  also have "\<dots> = liveURLs pg @ map ObjectURL (n # [Suc n ..< Suc n + length fs])"
    by simp
  also have "\<dots> = liveURLs pg @ map ObjectURL [n ..< n + length (f # fs)]"
    by (simp only: u)
  finally have "liveURLs (renders r (f # fs) pg) =
      liveURLs pg @ map ObjectURL [n ..< n + length (f # fs)]" .
  moreover have "length (objectURLs (renders r (f # fs) pg)) = n + length (f # fs)"
    using ihl by (simp add: pg'_def)
  ultimately show ?case unfolding n_def by blast
qed

lemma distinct_liveURLs: "distinct (liveURLs pg)"
proof -
  have "distinct (map fst (filter (\<lambda>(n, f). f \<noteq> None) (enumerate 0 (objectURLs pg))))"
    by (rule distinct_map_filter) simp
  moreover have "liveURLs pg =
      map ObjectURL (map fst (filter (\<lambda>(n, f). f \<noteq> None) (enumerate 0 (objectURLs pg))))"
    by (simp add: liveURLs_def case_prod_beta comp_def)
  ultimately show ?thesis
    by (simp add: distinct_map inj_on_def del: map_map)
qed

lemma set_liveURLs_mono:
  "set (liveURLs pg) \<subseteq> set (liveURLs (pg\<lparr>objectURLs := objectURLs pg @ new\<rparr>))"
  by (auto simp: liveURLs_def enumerate_append_eq)

lemma objectURLs_dispatch: "objectURLs (dispatch st ev pg) = objectURLs pg"
  by (cases ev)
     (simp_all add: ondragover_eq ondrop_eq ondragleave_def signalDropValid_def
        signalDropInvalid_def resetDropSignal_def call_process_def)

lemma objectURLs_settle: "\<exists>new. objectURLs (settle r k pg) = objectURLs pg @ new"
proof (cases "k < length (pending pg)")
  case True
  obtain p pg2 where p: "process r (pending pg ! k)
      (pg\<lparr>pending := take k (pending pg) @ drop (Suc k) (pending pg)\<rparr>) = (p, pg2)"
    by (cases "process r (pending pg ! k)
      (pg\<lparr>pending := take k (pending pg) @ drop (Suc k) (pending pg)\<rparr>)")
  from objectURLs_process [of r "pending pg ! k"
      "pg\<lparr>pending := take k (pending pg) @ drop (Suc k) (pending pg)\<rparr>"] p
  have "\<exists>new. objectURLs pg2 = objectURLs pg @ new" by simp
  with True p show ?thesis
    by (cases p) (simp_all add: settle_def Let_def throw_def)
next
  case False
  then show ?thesis by (simp add: settle_def)
qed

lemma objectURLs_step: "\<exists>new. objectURLs (step r st ev pg) = objectURLs pg @ new"
  by (cases ev) (simp_all add: objectURLs_dispatch onchange_def call_process_def objectURLs_settle)

lemma objectURLs_run: "\<exists>new. objectURLs (run r st evs pg) = objectURLs pg @ new"
proof (induction evs arbitrary: pg)
  case Nil
  then show ?case by simp
next
  case (Cons ev evs)
  obtain new1 where "objectURLs (step r st ev pg) = objectURLs pg @ new1"
    using objectURLs_step by blast
  moreover obtain new2 where
    "objectURLs (run r st evs (step r st ev pg)) = objectURLs (step r st ev pg) @ new2"
    using Cons.IH by blast
  ultimately show ?case by simp
qed

lemma set_liveURLs_run: "set (liveURLs pg) \<subseteq> set (liveURLs (run r st evs pg))"
proof -
  obtain new where n: "objectURLs (run r st evs pg) = objectURLs pg @ new"
    using objectURLs_run by blast
  have "liveURLs (run r st evs pg) = liveURLs (pg\<lparr>objectURLs := objectURLs pg @ new\<rparr>)"
    by (rule liveURLs_cong) (simp add: n)
  then show ?thesis using set_liveURLs_mono [of pg new] by simp
qed

text \<open>
  Claim C9. Each invocation of \<open>process\<close> whose render resolves issues one object URL
  that was not live before, and keeps every URL that was; after \<open>length fs\<close> such
  invocations there are \<open>length fs\<close> more live URLs. No event of the component (drag
  event, file chosen, invocation settling) revokes a URL.
\<close>

theorem object_urls_accumulate:
  "((\<forall>f \<in> set fs. \<exists>svg. r (arrayBuffer f) = Resolves svg) \<longrightarrow>
      liveURLs (renders r fs pg) =
        liveURLs pg @ map ObjectURL [length (objectURLs pg) ..< length (objectURLs pg) + length fs] \<and>
      length (liveURLs (renders r fs pg)) = length (liveURLs pg) + length fs \<and>
      distinct (liveURLs (renders r fs pg))) \<and>
   set (liveURLs pg) \<subseteq> set (liveURLs (run r st evs pg))"
proof (intro conjI impI)
  assume ok: "\<forall>f \<in> set fs. \<exists>svg. r (arrayBuffer f) = Resolves svg"
  from liveURLs_renders [OF ok, of pg]
  show eq: "liveURLs (renders r fs pg) =
      liveURLs pg @ map ObjectURL [length (objectURLs pg) ..< length (objectURLs pg) + length fs]"
    by blast
  show "length (liveURLs (renders r fs pg)) = length (liveURLs pg) + length fs"
    by (simp add: eq)
  show "distinct (liveURLs (renders r fs pg))"
    by (rule distinct_liveURLs)
next
  show "set (liveURLs pg) \<subseteq> set (liveURLs (run r st evs pg))"
    by (rule set_liveURLs_run)
qed

theorem object_urls_accumulate_witness:
  "echo (arrayBuffer (Some wasm_file)) = Resolves (bits wasm_file) \<and>
   echo (arrayBuffer None) = Resolves [] \<and>
   liveURLs sample_page = [] \<and>
   liveURLs (renders echo [Some wasm_file, None, Some wasm_file] sample_page) =
     [ObjectURL 0, ObjectURL 1, ObjectURL 2]"
proof -
  have e: "echo (arrayBuffer (Some wasm_file)) = Resolves (bits wasm_file)"
    "echo (arrayBuffer None) = Resolves []"
    by (simp_all add: echo_def arrayBuffer_def)
  then have h: "\<forall>f \<in> set [Some wasm_file, None, Some wasm_file].
      \<exists>svg. echo (arrayBuffer f) = Resolves svg"
    by simp
  have l: "liveURLs sample_page = []" "objectURLs sample_page = []"
    by (simp_all add: liveURLs_def sample_page_def)
  show ?thesis
    using h object_urls_accumulate [of "[Some wasm_file, None, Some wasm_file]" echo sample_page]
    by (simp add: e l upt_conv_Cons)
qed

end
